theory Spec2Isabelle
  imports Main
begin

section \<open>scrape\_checkio.py: data model\<close>

text \<open>
  The script drives a browser over the CheckiO site and writes every solved mission's code
  to a file tree. Everything outside the script (the site as the browser shows it, the file
  system, the clock) is a record \<open>world\<close>: the fields the script changes (working
  directory, files, clock, and a log of the effects it performed) and the answers the
  environment gives (which never change during a run).

  Python strings are modelled as \<open>string\<close>, one \<open>char\<close> per code point, so the
  model covers the code points U+0000 to U+00FF.
\<close>

type_synonym path = "string list"

datatype node = Dir | File string

text \<open>
  The exceptions the source names. Since Python 3.3 \<open>IOError\<close> is \<open>OSError\<close>, and the
  other four are subclasses of it: \<open>except IOError\<close> and \<open>except OSError\<close> catch all
  five. \<open>IOError\<close> below is the plain instance that \<open>raise IOError()\<close> creates.
\<close>

datatype os_error =
  IOError | FileNotFoundError | NotADirectoryError | FileExistsError | IsADirectoryError

datatype read_outcome = Lines "string list" | Stale

datatype event =
    Get string
  | FindLines
  | Sleep nat
  | Print string
  | AddCookie string string
  | SendKeys string string
  | Click string
  | Input string
  | OpenWrite path
  | Remove path

record task_elem =
  img_title :: "string option"
  a_href :: "string option"

record section_elem =
  section_header :: "string option"
  block_progress_main :: "task_elem list"

record world =
  cwd :: path
  fs :: "path \<rightharpoonup> node"
  clock :: nat
  log :: "event list"
  strftime_c :: "nat \<Rightarrow> string"
  has_element :: "string \<Rightarrow> bool"
  current_url :: string
  sections :: "string \<Rightarrow> section_elem list"
  ace_line :: "string \<Rightarrow> nat \<Rightarrow> read_outcome"
  write_fault :: "path \<Rightarrow> nat option"

text \<open>
  \<^item> \<open>cwd\<close>, \<open>fs\<close>: the working directory and the file tree, paths as lists of names from
    the root; the root \<open>[]\<close> is always a directory.
  \<^item> \<open>clock\<close>: seconds; \<open>strftime_c\<close> is \<open>strftime('%c')\<close> of the locale.
  \<^item> \<open>log\<close>: the effects performed so far, oldest first.
  \<^item> \<open>has_element\<close>: whether the login page has the element of that id or class.
  \<^item> \<open>current_url\<close>: \<open>browser.current_url\<close> once the user page has loaded.
  \<^item> \<open>sections\<close>: the \<open>section\<close> elements of the page at a URL; a missing child element
    (\<open>NoSuchElementException\<close>) is \<open>None\<close>.
  \<^item> \<open>ace_line url k\<close>: what the \<open>k\<close>-th read of the editor's lines gives after the
    browser has loaded \<open>url\<close>: the texts, or \<open>StaleElementReferenceException\<close>.
  \<^item> \<open>write_fault p = Some k\<close>: a write to the file \<open>p\<close> fails once \<open>k\<close> lines are out.
\<close>

record mission =
  title :: string
  url_name :: string

text \<open>The module's global variables that the functions read.\<close>

record globals =
  VERBOSE :: bool
  mission_list :: "mission list"

definition PAGE_RETRIES :: nat where
  "PAGE_RETRIES = 3"

definition RETRY_DELAY_SECS :: nat where
  "RETRY_DELAY_SECS = 5"




definition SOLUTION_PAGE :: "string \<Rightarrow> string" where
  "SOLUTION_PAGE name = ''https://checkio.org/mission/'' @ name @ ''/solve/''"

section \<open>Effects\<close>

definition emit :: "event \<Rightarrow> world \<Rightarrow> world" where
  "emit e w = w\<lparr>log := log w @ [e]\<rparr>"

definition print_if :: "bool \<Rightarrow> string \<Rightarrow> world \<Rightarrow> world" where
  "print_if b s w = (if b then emit (Print s) w else w)"

definition sleep :: "nat \<Rightarrow> world \<Rightarrow> world" where
  "sleep n w = emit (Sleep n) (w\<lparr>clock := clock w + n\<rparr>)"

text \<open>\<open>str(n)\<close> of a natural number.\<close>

definition digit_char :: "nat \<Rightarrow> char" where
  "digit_char d = ''0123456789'' ! d"

fun str_nat :: "nat \<Rightarrow> string" where
  "str_nat n = (if n < 10 then [digit_char n] else str_nat (n div 10) @ [digit_char (n mod 10)])"

declare str_nat.simps [simp del]

section \<open>get\_solution\<close>

text \<open>
  The retry loop of \<open>get_solution\<close>: \<open>attempts\<close> counts up from 0 while
  \<open>attempts <= PAGE_RETRIES\<close>; a read that succeeds returns at once, a stale read sleeps
  and goes round again.
\<close>

function get_solution_loop ::
  "globals \<Rightarrow> string \<Rightarrow> nat \<Rightarrow> world \<Rightarrow> string list option \<times> world" where
  "get_solution_loop g url attempts w =
     (if attempts \<le> PAGE_RETRIES then
        (let attempts' = attempts + 1;
             w1 = emit FindLines w
         in case ace_line w url attempts of
              Lines ls \<Rightarrow> (Some ls, w1)
            | Stale \<Rightarrow>
                get_solution_loop g url attempts'
                  (sleep RETRY_DELAY_SECS
                    (print_if (VERBOSE g)
                      (''Attempt '' @ str_nat attempts' @ '' failed, page not ready'') w1)))
      else (None, print_if (VERBOSE g) (''Failed after '' @ str_nat attempts @ '' attempts'') w))"
  by pat_completeness auto
termination
  by (relation "measure (\<lambda>(g, url, attempts, w). Suc PAGE_RETRIES - attempts)") auto

declare get_solution_loop.simps [simp del]

definition get_solution :: "globals \<Rightarrow> world \<Rightarrow> string \<Rightarrow> string list option \<times> world" where
  "get_solution g w mission =
     (let mission_url = SOLUTION_PAGE mission;
          w1 = print_if (VERBOSE g) (''Downloading: '' @ mission_url) w;
          w2 = emit (Get mission_url) w1
      in get_solution_loop g mission_url 0 w2)"

section \<open>Strings\<close>

definition newline :: char where
  "newline = CHR 0x0A"

definition dquote :: char where
  "dquote = CHR 0x22"



text \<open>
  \<open>f.read()\<close> in text mode turns \<open>\r\n\<close> and \<open>\r\<close> into \<open>\n\<close>;
  \<open>str.splitlines\<close> then breaks at every line boundary and drops the boundaries.
\<close>

fun universal_newlines :: "string \<Rightarrow> string" where
  "universal_newlines [] = []"
| "universal_newlines [c] = (if c = CHR 0x0D then [newline] else [c])"
| "universal_newlines (c # d # cs) =
     (if c = CHR 0x0D then
        (if d = newline then newline # universal_newlines cs
         else newline # universal_newlines (d # cs))
      else c # universal_newlines (d # cs))"

definition is_linebreak :: "char \<Rightarrow> bool" where
  "is_linebreak c = (c \<in> {CHR 0x0A, CHR 0x0B, CHR 0x0C, CHR 0x0D, CHR 0x1C, CHR 0x1D, CHR 0x1E, CHR 0x85})"

fun splitlines_from :: "string \<Rightarrow> string \<Rightarrow> string list" where
  "splitlines_from cur [] = (if cur = [] then [] else [cur])"
| "splitlines_from cur [c] = (if is_linebreak c then [cur] else [cur @ [c]])"
| "splitlines_from cur (c # d # cs) =
     (if c = CHR 0x0D \<and> d = newline then cur # splitlines_from [] cs
      else if is_linebreak c then cur # splitlines_from [] (d # cs)
      else splitlines_from (cur @ [c]) (d # cs))"

definition splitlines :: "string \<Rightarrow> string list" where
  "splitlines s = splitlines_from [] s"






fun startswith :: "string \<Rightarrow> string \<Rightarrow> bool" where
  "startswith s [] = True"
| "startswith [] (p # ps) = False"
| "startswith (c # cs) (p # ps) = (c = p \<and> startswith cs ps)"


section \<open>File system\<close>

text \<open>
  A path string is a sequence of names separated by slashes, absolute when it starts with
  one; empty names are skipped. The names \<open>.\<close> and \<open>..\<close> are not interpreted: the
  script itself only builds single names (a folder name of alphanumeric characters, a file
  name ending in \<open>.py\<close>).
\<close>

fun split_slash :: "string \<Rightarrow> string list" where
  "split_slash [] = [ []]"
| "split_slash (c # cs) =
     (if c = CHR ''/'' then [] # split_slash cs
      else (case split_slash cs of [] \<Rightarrow> [ [c]] | x # xs \<Rightarrow> (c # x) # xs))"

definition path_names :: "string \<Rightarrow> string list" where
  "path_names s = filter (\<lambda>n. n \<noteq> []) (split_slash s)"

definition is_abs :: "string \<Rightarrow> bool" where
  "is_abs s = startswith s ''/''"

definition resolve :: "world \<Rightarrow> string \<Rightarrow> path" where
  "resolve w s = (if is_abs s then [] else cwd w) @ path_names s"

definition node_at :: "world \<Rightarrow> path \<Rightarrow> node option" where
  "node_at w p = (if p = [] then Some Dir else fs w p)"

definition is_dir :: "world \<Rightarrow> path \<Rightarrow> bool" where
  "is_dir w p = (node_at w p = Some Dir)"





text \<open>\<open>open(filename, mode='r')\<close> followed by \<open>f.read()\<close>.\<close>

definition open_read :: "world \<Rightarrow> string \<Rightarrow> os_error + string" where
  "open_read w filename =
     (case node_at w (resolve w filename) of
        Some (File s) \<Rightarrow> Inr (universal_newlines s)
      | Some Dir \<Rightarrow> Inl IsADirectoryError
      | None \<Rightarrow> Inl FileNotFoundError)"

text \<open>
  The loop \<open>for line in code: print(line, file=f)\<close>, with the number of lines that
  still go out before the write fails (\<open>None\<close>: it does not fail). The result tells
  whether all lines went out, and what the file holds.
\<close>

fun print_lines :: "nat option \<Rightarrow> string list \<Rightarrow> string \<Rightarrow> bool \<times> string" where
  "print_lines fault [] out = (True, out)"
| "print_lines fault (line # code) out =
     (if fault = Some 0 then (False, out)
      else print_lines (map_option (\<lambda>k. k - 1) fault) code (out @ line @ [newline]))"

text \<open>
  \<open>open(filename, mode='w')\<close> and the loop above: opening fails on a directory and in a
  folder that does not exist, and otherwise creates or empties the file.
\<close>

definition write_file :: "world \<Rightarrow> string \<Rightarrow> string list \<Rightarrow> (os_error + unit) \<times> world" where
  "write_file w filename code =
     (let p = resolve w filename
      in if node_at w p = Some Dir then (Inl IsADirectoryError, w)
         else if \<not> is_dir w (butlast p) then (Inl FileNotFoundError, w)
         else (case print_lines (write_fault w p) code [] of
                 (ok, out) \<Rightarrow>
                   (if ok then Inr () else Inl IOError,
                    (emit (OpenWrite p) w)\<lparr>fs := (fs w)(p \<mapsto> File out)\<rparr>)))"

definition os_remove :: "world \<Rightarrow> string \<Rightarrow> (os_error + unit) \<times> world" where
  "os_remove w filename =
     (let p = resolve w filename
      in case node_at w p of
           Some (File s) \<Rightarrow> (Inr (), (emit (Remove p) w)\<lparr>fs := (fs w)(p := None)\<rparr>)
         | Some Dir \<Rightarrow> (Inl IsADirectoryError, w)
         | None \<Rightarrow> (Inl FileNotFoundError, w))"

section \<open>create\_and\_switch\_to\_dir\<close>



section \<open>write\_solution\_to\_file\<close>

text \<open>\<open>'# "{}" downloaded: {}'.format(title, download_time)\<close>\<close>

definition header_line :: "string \<Rightarrow> string \<Rightarrow> string" where
  "header_line t download_time = ''# '' @ [dquote] @ t @ [dquote] @ '' downloaded: '' @ download_time"

definition write_solution_to_file :: "globals \<Rightarrow> world \<Rightarrow> mission \<Rightarrow> (os_error + unit) \<times> world" where
  "write_solution_to_file g w mission =
     (case get_solution g w (url_name mission) of
        (None, w1) \<Rightarrow> (Inl IOError, w1)
      | (Some downloaded, w1) \<Rightarrow>
          if downloaded = [] then (Inl IOError, w1)
          else
            let download_time = strftime_c w1 (clock w1);
                code = header_line (title mission) download_time # downloaded;
                filename = url_name mission @ ''.py''
            in if (case open_read w1 filename of
                     Inr s \<Rightarrow> splitlines s = code
                   | Inl e \<Rightarrow> False)
               then (Inr (), w1)
               else (case write_file w1 filename code of
                       (Inr u, w2) \<Rightarrow> (Inr (), w2)
                     | (Inl e, w2) \<Rightarrow>
                         (case os_remove w2 filename of
                            (Inl e', w3) \<Rightarrow> (Inl e', w3)
                          | (Inr u, w3) \<Rightarrow> (Inl e, w3))))"

section \<open>download\_section\<close>

text \<open>
  The loop over the missions of a section; an \<open>IOError\<close> of one mission becomes an entry
  of \<open>errors\<close> and the loop goes on.
\<close>

fun download_loop ::
  "globals \<Rightarrow> world \<Rightarrow> string \<Rightarrow> mission list \<Rightarrow> string list \<Rightarrow> string list \<times> world" where
  "download_loop g w section_name [] errors = (errors, w)"
| "download_loop g w section_name (mission # rest) errors =
     (case write_solution_to_file g w mission of
        (Inr u, w') \<Rightarrow> download_loop g w' section_name rest errors
      | (Inl e, w') \<Rightarrow>
          download_loop g w' section_name rest (errors @ [section_name @ '': '' @ title mission]))"


section \<open>Session: get\_browser and get\_username\<close>





section \<open>Catalogue: get\_missions\<close>






section \<open>The script's main part\<close>








section \<open>Notions used in the statements\<close>

text \<open>The log without what was printed: the actions on the browser, the clock and the files.\<close>

fun is_print :: "event \<Rightarrow> bool" where
  "is_print (Print s) = True"
| "is_print e = False"

definition actions :: "event list \<Rightarrow> event list" where
  "actions l = filter (\<lambda>e. \<not> is_print e) l"

text \<open>The file-system part of the log: files opened for writing and files removed.\<close>

fun is_file_event :: "event \<Rightarrow> bool" where
  "is_file_event (OpenWrite p) = True"
| "is_file_event (Remove p) = True"
| "is_file_event e = False"

definition file_events :: "event list \<Rightarrow> event list" where
  "file_events l = filter is_file_event l"

text \<open>
  \<open>stale_reads f i n\<close>: how many of the reads \<open>i\<close>, \<open>i + 1\<close>, ... are stale before the
  first one that succeeds, looking at \<open>n\<close> reads at most.
\<close>

fun stale_reads :: "(nat \<Rightarrow> read_outcome) \<Rightarrow> nat \<Rightarrow> nat \<Rightarrow> nat" where
  "stale_reads f i 0 = 0"
| "stale_reads f i (Suc n) =
     (case f i of Stale \<Rightarrow> Suc (stale_reads f (Suc i) n) | Lines ls \<Rightarrow> 0)"

fun lines_of :: "read_outcome \<Rightarrow> string list option" where
  "lines_of (Lines ls) = Some ls"
| "lines_of Stale = None"

text \<open>What a file holds once every line of \<open>code\<close> has been printed to it.\<close>

definition file_text :: "string list \<Rightarrow> string" where
  "file_text code = concat (map (\<lambda>line. line @ [newline]) code)"

text \<open>
  The second half of \<open>write_solution_to_file\<close>, from the comparison with the file on disk
  to the end, as a function of its own; \<open>write_solution_save\<close> below shows that it is.
\<close>

definition save_code :: "world \<Rightarrow> string \<Rightarrow> string list \<Rightarrow> (os_error + unit) \<times> world" where
  "save_code w filename code =
     (if (case open_read w filename of Inr s \<Rightarrow> splitlines s = code | Inl e \<Rightarrow> False)
      then (Inr (), w)
      else (case write_file w filename code of
              (Inr u, w2) \<Rightarrow> (Inr (), w2)
            | (Inl e, w2) \<Rightarrow>
                (case os_remove w2 filename of
                   (Inl e', w3) \<Rightarrow> (Inl e', w3)
                 | (Inr u, w3) \<Rightarrow> (Inl e, w3))))"

text \<open>The pages the browser was sent to, in order.\<close>

fun page_of :: "event \<Rightarrow> string list" where
  "page_of (Get url) = [url]"
| "page_of e = []"

definition pages_loaded :: "event list \<Rightarrow> string list" where
  "pages_loaded l = concat (map page_of l)"









section \<open>Example worlds\<close>

text \<open>
  A world with one folder \<open>/home\<close>, an editor that is ready at the first read and shows
  the two lines \<open>a=1\<close>, \<open>b=2\<close> for every mission, and a catalogue page with one section
  \<open>Basics\<close> holding the mission \<open>Add\<close>.
\<close>

definition example_sections :: "section_elem list" where
  "example_sections =
     [\<lparr>section_header = Some ''Basics'',
       block_progress_main =
         [\<lparr>img_title = Some ''Add'', a_href = Some ''https://checkio.org/mission/add/''\<rparr>]\<rparr>]"

definition example_world :: world where
  "example_world =
     \<lparr>cwd = [''home''],
      fs = [ [''home''] \<mapsto> Dir],
      clock = 0,
      log = [],
      strftime_c = str_nat,
      has_element = (\<lambda>e. True),
      current_url = ''https://checkio.org/user/ann/'',
      sections = (\<lambda>url. example_sections),
      ace_line = (\<lambda>url k. Lines [''a=1'', ''b=2'']),
      write_fault = (\<lambda>p. None)\<rparr>"

definition example_globals :: globals where
  "example_globals = \<lparr>VERBOSE = False, mission_list = [\<lparr>title = ''Add'', url_name = ''add''\<rparr>]\<rparr>"

text \<open>The same world with an editor that is never ready.\<close>

definition stale_world :: world where
  "stale_world = example_world\<lparr>ace_line := (\<lambda>url k. Stale)\<rparr>"

text \<open>The same world with an editor that is ready at the third read.\<close>

definition slow_world :: world where
  "slow_world = example_world\<lparr>ace_line := (\<lambda>url k. if k < 2 then Stale else Lines [''a=1'', ''b=2''])\<rparr>"

text \<open>The example world with a disk that fails once two lines of a file are out.\<close>

definition faulty_world :: world where
  "faulty_world = example_world\<lparr>write_fault := (\<lambda>p. Some 2)\<rparr>"

text \<open>The example world after the mission \<open>Add\<close> has been written to \<open>/home/add.py\<close>.\<close>

definition written_world :: world where
  "written_world = example_world
     \<lparr>fs := [ [''home''] \<mapsto> Dir,
             [''home'', ''add.py''] \<mapsto> File (''# '' @ [dquote] @ ''Add'' @ [dquote] @ '' downloaded: 0''
                @ [newline] @ ''a=1'' @ [newline] @ ''b=2'' @ [newline])],
      log := [Get ''https://checkio.org/mission/add/solve/'', FindLines,
              OpenWrite [''home'', ''add.py'']]\<rparr>"

definition add_mission :: mission where
  "add_mission = \<lparr>title = ''Add'', url_name = ''add''\<rparr>"







section \<open>The retry loop of get\_solution\<close>

lemma actions_append [simp]: "actions (xs @ ys) = actions xs @ actions ys"
  by (simp add: actions_def)

lemma stale_reads_le: "stale_reads f i n \<le> n"
  by (induction n arbitrary: i) (auto split: read_outcome.splits)

lemma loop_frame:
  "get_solution_loop g url attempts w = (r, w') \<Longrightarrow> w' = w\<lparr>clock := clock w', log := log w'\<rparr>"
proof (induction g url attempts w rule: get_solution_loop.induct)
  case (1 g url attempts w)
  show ?case
  proof (cases "attempts \<le> PAGE_RETRIES")
    case False
    with "1.prems" show ?thesis
      by (auto simp add: get_solution_loop.simps [of g url attempts w] print_if_def emit_def)
  next
    case True
    show ?thesis
    proof (cases "ace_line w url attempts")
      case (Lines ls)
      with True "1.prems" show ?thesis
        by (auto simp add: get_solution_loop.simps [of g url attempts w] emit_def)
    next
      case Stale
      let ?w2 = "sleep RETRY_DELAY_SECS (print_if (VERBOSE g)
                  (''Attempt '' @ str_nat (attempts + 1) @ '' failed, page not ready'') (emit FindLines w))"
      have rec: "get_solution_loop g url (attempts + 1) ?w2 = (r, w')"
        using True Stale "1.prems" by (simp add: get_solution_loop.simps [of g url attempts w])
      have "w' = ?w2\<lparr>clock := clock w', log := log w'\<rparr>"
        by (rule "1.IH" [OF True refl refl Stale rec])
      also have "\<dots> = w\<lparr>clock := clock w', log := log w'\<rparr>"
        by (simp add: sleep_def emit_def print_if_def)
      finally show ?thesis .
    qed
  qed
qed

lemma loop_spec:
  "attempts \<le> Suc PAGE_RETRIES \<Longrightarrow>
   get_solution_loop g url attempts w = (r, w') \<Longrightarrow>
   k = stale_reads (ace_line w url) attempts (Suc PAGE_RETRIES - attempts) \<Longrightarrow>
     r = (if attempts + k \<le> PAGE_RETRIES then lines_of (ace_line w url (attempts + k)) else None)
   \<and> actions (log w') = actions (log w) @ concat (replicate k [FindLines, Sleep RETRY_DELAY_SECS])
        @ (if attempts + k \<le> PAGE_RETRIES then [FindLines] else [])
   \<and> clock w' = clock w + RETRY_DELAY_SECS * k"
proof (induction g url attempts w arbitrary: k rule: get_solution_loop.induct)
  case (1 g url attempts w)
  show ?case
  proof (cases "attempts \<le> PAGE_RETRIES")
    case False
    with "1.prems" show ?thesis
      by (auto simp add: get_solution_loop.simps [of g url attempts w] print_if_def emit_def actions_def)
  next
    case True
    then obtain n where n: "Suc PAGE_RETRIES - attempts = Suc n" "PAGE_RETRIES - attempts = n"
      by (metis Suc_diff_le)
    show ?thesis
    proof (cases "ace_line w url attempts")
      case (Lines ls)
      with True "1.prems" n show ?thesis
        by (auto simp add: get_solution_loop.simps [of g url attempts w] emit_def actions_def)
    next
      case Stale
      let ?w2 = "sleep RETRY_DELAY_SECS (print_if (VERBOSE g)
                  (''Attempt '' @ str_nat (attempts + 1) @ '' failed, page not ready'') (emit FindLines w))"
      have rec: "get_solution_loop g url (attempts + 1) ?w2 = (r, w')"
        using True Stale "1.prems"(2) by (simp add: get_solution_loop.simps [of g url attempts w])
      have ace: "ace_line ?w2 = ace_line w" by (simp add: sleep_def emit_def print_if_def)
      define k' where "k' = stale_reads (ace_line ?w2 url) (attempts + 1) (Suc PAGE_RETRIES - (attempts + 1))"
      have kk: "k = Suc k'" using "1.prems"(3) Stale n unfolding k'_def ace by simp
      have le: "attempts + 1 \<le> Suc PAGE_RETRIES" using True by simp
      note IH = "1.IH" [OF True refl refl Stale le rec k'_def]
      have a2: "actions (log ?w2) = actions (log w) @ [FindLines, Sleep RETRY_DELAY_SECS]"
        by (simp add: sleep_def emit_def actions_def print_if_def)
      have c2: "clock ?w2 = clock w + RETRY_DELAY_SECS"
        by (simp add: sleep_def emit_def print_if_def)
      have r: "r = (if attempts + k \<le> PAGE_RETRIES then lines_of (ace_line w url (attempts + k)) else None)"
        using IH kk ace by simp
      have a: "actions (log w') = actions (log w) @ concat (replicate k [FindLines, Sleep RETRY_DELAY_SECS])
        @ (if attempts + k \<le> PAGE_RETRIES then [FindLines] else [])"
        using IH kk a2 by simp
      have c: "clock w' = clock w + RETRY_DELAY_SECS * k"
        using IH kk c2 by simp
      from r a c show ?thesis by blast
    qed
  qed
qed

lemma get_solution_frame:
  "get_solution g w mission = (r, w') \<Longrightarrow> w' = w\<lparr>clock := clock w', log := log w'\<rparr>"
proof -
  assume "get_solution g w mission = (r, w')"
  then have "w' = (emit (Get (SOLUTION_PAGE mission))
      (print_if (VERBOSE g) (''Downloading: '' @ SOLUTION_PAGE mission) w))\<lparr>clock := clock w', log := log w'\<rparr>"
    by (simp add: get_solution_def Let_def loop_frame)
  then show ?thesis by (simp add: print_if_def emit_def split: if_splits)
qed

lemma count_attempts:
  "count_list (concat (replicate k [FindLines, Sleep n])) FindLines = k"
  by (induction k) auto

lemma get_solution_spec:
  assumes run: "get_solution g w mission = (r, w')"
  defines "url \<equiv> SOLUTION_PAGE mission"
  defines "k \<equiv> stale_reads (ace_line w url) 0 4"
  shows "r = (if k \<le> 3 then lines_of (ace_line w url k) else None)"
    and "actions (log w') = actions (log w) @ Get url # concat (replicate k [FindLines, Sleep 5])
             @ (if k \<le> 3 then [FindLines] else [])"
    and "clock w' = clock w + 5 * k"
proof -
  define w2 where "w2 = emit (Get url) (print_if (VERBOSE g) (''Downloading: '' @ url) w)"
  from run have loop: "get_solution_loop g url 0 w2 = (r, w')"
    by (simp add: get_solution_def Let_def url_def w2_def)
  have w2: "ace_line w2 = ace_line w" "clock w2 = clock w" "actions (log w2) = actions (log w) @ [Get url]"
    by (auto simp add: w2_def emit_def print_if_def actions_def)
  have k: "k = stale_reads (ace_line w2 url) 0 (Suc PAGE_RETRIES - 0)"
    by (simp add: k_def w2 PAGE_RETRIES_def)
  note spec = loop_spec [OF _ loop k, simplified]
  show "r = (if k \<le> 3 then lines_of (ace_line w url k) else None)"
    using spec by (simp add: w2 PAGE_RETRIES_def)
  show "actions (log w') = actions (log w) @ Get url # concat (replicate k [FindLines, Sleep 5])
             @ (if k \<le> 3 then [FindLines] else [])"
    using spec by (simp add: w2 PAGE_RETRIES_def RETRY_DELAY_SECS_def)
  show "clock w' = clock w + 5 * k"
    using spec by (simp add: w2 RETRY_DELAY_SECS_def)
qed

text \<open>
  Claim C1. \<open>get_solution\<close> loads the solution page and reads the editor at most 4 times
  (one attempt and 3 retries). With \<open>k\<close> the number of stale reads before the first good
  one (among the first 4), its actions are exactly: load the page, then \<open>k\<close> times a read
  followed by a sleep of 5 seconds, then, if \<open>k \<le> 3\<close>, the read that succeeds, whose
  lines are the result at once. If all 4 reads are stale the result is \<open>None\<close>; no
  exception leaves the function, which is total.
\<close>

theorem get_solution_policy:
  "let url = SOLUTION_PAGE mission;
       k = stale_reads (ace_line w url) 0 4;
       r = fst (get_solution g w mission);
       w' = snd (get_solution g w mission);
       new = drop (length (actions (log w))) (actions (log w'))
   in k \<le> 4
    \<and> r = (if k \<le> 3 then lines_of (ace_line w url k) else None)
    \<and> actions (log w') = actions (log w) @ new
    \<and> new = Get url # concat (replicate k [FindLines, Sleep 5]) @ (if k \<le> 3 then [FindLines] else [])
    \<and> count_list new FindLines = min (k + 1) 4
    \<and> clock w' = clock w + 5 * k"
proof -
  define url where "url = SOLUTION_PAGE mission"
  define k where "k = stale_reads (ace_line w url) 0 4"
  obtain r w' where run: "get_solution g w mission = (r, w')" by (cases "get_solution g w mission")
  note spec = get_solution_spec [OF run, folded url_def, folded k_def]
  have k4: "k \<le> 4" unfolding k_def by (rule stale_reads_le)
  have n: "count_list (Get url # concat (replicate k [FindLines, Sleep 5])
             @ (if k \<le> 3 then [FindLines] else [])) FindLines = min (k + 1) 4"
    using k4 by (auto simp add: count_attempts)
  show ?thesis
    unfolding Let_def url_def [symmetric] k_def [symmetric] run fst_conv snd_conv
    using k4 spec n by simp
qed

text \<open>
  An editor that is never ready: 4 reads, each followed by a sleep, and \<open>None\<close>. An
  editor that is ready at the third read: 3 reads, 2 sleeps, and the lines.
\<close>

theorem get_solution_policy_witness:
  "fst (get_solution example_globals stale_world ''add'') = None
   \<and> actions (log (snd (get_solution example_globals stale_world ''add''))) =
       [Get ''https://checkio.org/mission/add/solve/'',
        FindLines, Sleep 5, FindLines, Sleep 5, FindLines, Sleep 5, FindLines, Sleep 5]
   \<and> clock (snd (get_solution example_globals stale_world ''add'')) = 20
   \<and> fst (get_solution example_globals slow_world ''add'') = Some [''a=1'', ''b=2'']
   \<and> actions (log (snd (get_solution example_globals slow_world ''add''))) =
       [Get ''https://checkio.org/mission/add/solve/'',
        FindLines, Sleep 5, FindLines, Sleep 5, FindLines]
   \<and> clock (snd (get_solution example_globals slow_world ''add'')) = 10"
  using get_solution_policy [where w = stale_world and mission = "''add''" and g = example_globals]
    get_solution_policy [where w = slow_world and mission = "''add''" and g = example_globals]
  by (simp add: Let_def stale_world_def slow_world_def example_world_def SOLUTION_PAGE_def
        actions_def eval_nat_numeral)

section \<open>write\_solution\_to\_file\<close>

lemma file_events_append [simp]: "file_events (xs @ ys) = file_events xs @ file_events ys"
  by (simp add: file_events_def)

lemma file_events_emit:
  "file_events (log (emit e w)) = file_events (log w) @ (if is_file_event e then [e] else [])"
  by (simp add: emit_def file_events_def)

lemma loop_file_events:
  "get_solution_loop g url attempts w = (r, w') \<Longrightarrow> file_events (log w') = file_events (log w)"
proof (induction g url attempts w rule: get_solution_loop.induct)
  case (1 g url attempts w)
  show ?case
  proof (cases "attempts \<le> PAGE_RETRIES")
    case False
    with "1.prems" show ?thesis
      by (auto simp add: get_solution_loop.simps [of g url attempts w] print_if_def emit_def file_events_def)
  next
    case True
    show ?thesis
    proof (cases "ace_line w url attempts")
      case (Lines ls)
      with True "1.prems" show ?thesis
        by (auto simp add: get_solution_loop.simps [of g url attempts w] emit_def file_events_def)
    next
      case Stale
      let ?w2 = "sleep RETRY_DELAY_SECS (print_if (VERBOSE g)
                  (''Attempt '' @ str_nat (attempts + 1) @ '' failed, page not ready'') (emit FindLines w))"
      have rec: "get_solution_loop g url (attempts + 1) ?w2 = (r, w')"
        using True Stale "1.prems" by (simp add: get_solution_loop.simps [of g url attempts w])
      have "file_events (log w') = file_events (log ?w2)"
        by (rule "1.IH" [OF True refl refl Stale rec])
      also have "\<dots> = file_events (log w)"
        by (simp add: sleep_def emit_def print_if_def file_events_def)
      finally show ?thesis .
    qed
  qed
qed

lemma get_solution_file_events:
  "get_solution g w mission = (r, w') \<Longrightarrow> file_events (log w') = file_events (log w)"
  by (auto simp add: get_solution_def Let_def print_if_def emit_def file_events_def
      dest!: loop_file_events split: if_splits)

lemma get_solution_fields:
  assumes "get_solution g w mission = (r, w')"
  shows "fs w' = fs w" "cwd w' = cwd w" "strftime_c w' = strftime_c w" "write_fault w' = write_fault w"
    "ace_line w' = ace_line w" "resolve w' s = resolve w s" "node_at w' p = node_at w p"
    "is_dir w' p = is_dir w p" "open_read w' s = open_read w s"
proof -
  have eq: "w' = w\<lparr>clock := clock w', log := log w'\<rparr>"
    using assms by (rule get_solution_frame)
  show "fs w' = fs w" by (subst eq) simp
  show "cwd w' = cwd w" by (subst eq) simp
  show "strftime_c w' = strftime_c w" by (subst eq) simp
  show "write_fault w' = write_fault w" by (subst eq) simp
  show "ace_line w' = ace_line w" by (subst eq) simp
  show "resolve w' s = resolve w s" by (subst eq) (simp add: resolve_def)
  show "node_at w' p = node_at w p" by (subst eq) (simp add: node_at_def)
  show "is_dir w' p = is_dir w p" by (subst eq) (simp add: is_dir_def node_at_def)
  show "open_read w' s = open_read w s" by (subst eq) (simp add: open_read_def node_at_def resolve_def)
qed

lemma print_lines_ok: "print_lines None code out = (True, out @ file_text code)"
  by (induction code arbitrary: out) (simp_all add: file_text_def)

lemma print_lines_enough:
  "length code \<le> k \<Longrightarrow> print_lines (Some k) code out = (True, out @ file_text code)"
proof (induction code arbitrary: out k)
  case Nil
  then show ?case by (simp add: file_text_def)
next
  case (Cons line code)
  then obtain k' where "k = Suc k'" by (cases k) auto
  with Cons show ?case by (simp add: file_text_def)
qed

lemma print_lines_fault:
  "k < length code \<Longrightarrow> print_lines (Some k) code out = (False, out @ file_text (take k code))"
proof (induction code arbitrary: out k)
  case Nil
  then show ?case by simp
next
  case (Cons line code)
  show ?case
  proof (cases k)
    case 0
    then show ?thesis by (simp add: file_text_def)
  next
    case (Suc k')
    with Cons show ?thesis by (simp add: file_text_def)
  qed
qed

lemma write_solution_save:
  "write_solution_to_file g w mission =
     (case get_solution g w (url_name mission) of
        (None, w1) \<Rightarrow> (Inl IOError, w1)
      | (Some downloaded, w1) \<Rightarrow>
          if downloaded = [] then (Inl IOError, w1)
          else save_code w1 (url_name mission @ ''.py'')
                 (header_line (title mission) (strftime_c w1 (clock w1)) # downloaded))"
  by (simp add: write_solution_to_file_def save_code_def Let_def split: prod.splits option.splits)

lemma save_code_cases:
  assumes "save_code w filename code = (r, w')"
  defines "p \<equiv> resolve w filename"
  obtains
    (skip) s where "r = Inr ()" "w' = w" "open_read w filename = Inr s" "splitlines s = code"
  | (written) "r = Inr ()" "node_at w p \<noteq> Some Dir" "is_dir w (butlast p)"
      "w' = w\<lparr>fs := (fs w)(p \<mapsto> File (file_text code)), log := log w @ [OpenWrite p]\<rparr>"
      "\<forall>k. write_fault w p = Some k \<longrightarrow> length code \<le> k"
  | (removed) k where "r = Inl IOError" "node_at w p \<noteq> Some Dir" "is_dir w (butlast p)"
      "write_fault w p = Some k" "k < length code"
      "w' = w\<lparr>fs := (fs w)(p := None), log := log w @ [OpenWrite p, Remove p]\<rparr>"
  | (is_dir) "r = Inl IsADirectoryError" "w' = w" "node_at w p = Some Dir"
  | (no_folder) "r = Inl FileNotFoundError" "w' = w" "node_at w p = None" "\<not> is_dir w (butlast p)"
  | (no_folder_file) s where "r = Inl FileNotFoundError" "node_at w p = Some (File s)"
      "\<not> is_dir w (butlast p)"
      "w' = w\<lparr>fs := (fs w)(p := None), log := log w @ [Remove p]\<rparr>"
proof (cases "case open_read w filename of Inr s \<Rightarrow> splitlines s = code | Inl e \<Rightarrow> False")
  case True
  then obtain s where "open_read w filename = Inr s" "splitlines s = code"
    by (auto split: sum.splits)
  moreover from True assms(1) have "r = Inr ()" "w' = w" by (simp_all add: save_code_def)
  ultimately show ?thesis by (rule_tac skip) auto
next
  case noskip: False
  show ?thesis
  proof (cases "node_at w p = Some Dir")
    case True
    then have wf: "write_file w filename code = (Inl IsADirectoryError, w)"
      by (simp add: write_file_def p_def Let_def)
    have rm: "os_remove w filename = (Inl IsADirectoryError, w)"
      using True by (simp add: os_remove_def p_def Let_def)
    from assms(1) noskip wf rm have "r = Inl IsADirectoryError" "w' = w"
      by (simp_all add: save_code_def)
    with True show ?thesis by (rule_tac is_dir) auto
  next
    case nodir: False
    show ?thesis
    proof (cases "is_dir w (butlast p)")
      case False
      then have wf: "write_file w filename code = (Inl FileNotFoundError, w)"
        using nodir by (simp add: write_file_def p_def Let_def)
      show ?thesis
      proof (cases "node_at w p")
        case None
        then have rm: "os_remove w filename = (Inl FileNotFoundError, w)"
          by (simp add: os_remove_def p_def Let_def)
        from assms(1) noskip wf rm have "r = Inl FileNotFoundError" "w' = w"
          by (simp_all add: save_code_def)
        with None False show ?thesis by (rule_tac no_folder) auto
      next
        case (Some n)
        with nodir obtain s where s: "node_at w p = Some (File s)" by (cases n) auto
        then have rm: "os_remove w filename =
            (Inr (), w\<lparr>fs := (fs w)(p := None), log := log w @ [Remove p]\<rparr>)"
          by (simp add: os_remove_def p_def emit_def Let_def)
        from assms(1) noskip wf rm have "r = Inl FileNotFoundError"
           "w' = w\<lparr>fs := (fs w)(p := None), log := log w @ [Remove p]\<rparr>"
          by (simp_all add: save_code_def)
        with s False show ?thesis by (rule_tac no_folder_file) auto
      qed
    next
      case folder: True
      have pne: "p \<noteq> []" using nodir by (auto simp add: node_at_def)
      show ?thesis
      proof (cases "\<exists>k. write_fault w p = Some k \<and> k < length code")
        case True
        then obtain k where k: "write_fault w p = Some k" "k < length code" by auto
        let ?w2 = "w\<lparr>fs := (fs w)(p \<mapsto> File (file_text (take k code))), log := log w @ [OpenWrite p]\<rparr>"
        have wf: "write_file w filename code = (Inl IOError, ?w2)"
          using nodir folder k by (simp add: write_file_def Let_def p_def [symmetric] print_lines_fault emit_def)
        have "node_at ?w2 (resolve ?w2 filename) = Some (File (file_text (take k code)))"
          using pne by (simp add: node_at_def resolve_def p_def)
        then have rm: "os_remove ?w2 filename =
            (Inr (), w\<lparr>fs := (fs w)(p := None), log := log w @ [OpenWrite p, Remove p]\<rparr>)"
          by (simp add: os_remove_def Let_def emit_def) (simp add: resolve_def p_def)
        from assms(1) noskip wf rm have "r = Inl IOError"
           "w' = w\<lparr>fs := (fs w)(p := None), log := log w @ [OpenWrite p, Remove p]\<rparr>"
          by (simp_all add: save_code_def)
        with nodir folder k show ?thesis by (rule_tac removed) auto
      next
        case False
        then have "print_lines (write_fault w p) code [] = (True, file_text code)"
          by (cases "write_fault w p") (simp_all add: print_lines_ok print_lines_enough)
        then have wf: "write_file w filename code =
            (Inr (), w\<lparr>fs := (fs w)(p \<mapsto> File (file_text code)), log := log w @ [OpenWrite p]\<rparr>)"
          using nodir folder by (simp add: write_file_def Let_def p_def [symmetric] emit_def)
        from assms(1) noskip wf have "r = Inr ()"
           "w' = w\<lparr>fs := (fs w)(p \<mapsto> File (file_text code)), log := log w @ [OpenWrite p]\<rparr>"
          by (simp_all add: save_code_def)
        with nodir folder False show ?thesis by (rule_tac written) auto
      qed
    qed
  qed
qed

lemmas run_defs =
  write_solution_to_file_def get_solution_def get_solution_loop.simps Let_def
  PAGE_RETRIES_def RETRY_DELAY_SECS_def print_if_def emit_def sleep_def SOLUTION_PAGE_def
  open_read_def resolve_def is_abs_def path_names_def node_at_def write_file_def os_remove_def
  is_dir_def header_line_def str_nat.simps digit_char_def dquote_def newline_def splitlines_def
  is_linebreak_def file_events_def actions_def

lemmas example_defs =
  example_globals_def example_world_def add_mission_def written_world_def stale_world_def
  slow_world_def faulty_world_def example_sections_def


lemma write_solution_cases:
  assumes run: "get_solution g w (url_name mission) = (Some downloaded, w1)"
    and ne: "downloaded \<noteq> []"
  shows "write_solution_to_file g w mission =
     save_code w1 (url_name mission @ ''.py'')
       (header_line (title mission) (strftime_c w (clock w1)) # downloaded)"
  using ne by (simp add: write_solution_save run get_solution_fields(3) [OF run])

text \<open>
  Claim C7. When the fetch gave nothing (\<open>None\<close> after the retries, or an empty list of
  lines), \<open>write_solution_to_file\<close> raises \<open>IOError\<close>; no file is opened for writing or
  removed, and the file tree is as before.
\<close>

theorem write_refuses_empty_fetch:
  assumes "fst (get_solution g w (url_name mission)) = None
         \<or> fst (get_solution g w (url_name mission)) = Some []"
  shows "fst (write_solution_to_file g w mission) = Inl IOError
       \<and> fs (snd (write_solution_to_file g w mission)) = fs w
       \<and> file_events (log (snd (write_solution_to_file g w mission))) = file_events (log w)"
proof -
  obtain r w1 where run: "get_solution g w (url_name mission) = (r, w1)"
    by (cases "get_solution g w (url_name mission)")
  with assms have r: "r = None \<or> r = Some []" by simp
  then have "write_solution_to_file g w mission = (Inl IOError, w1)"
    by (auto simp add: write_solution_to_file_def run)
  then show ?thesis
    using get_solution_fields(1) [OF run] get_solution_file_events [OF run] by simp
qed

theorem write_refuses_empty_fetch_witness:
  "fst (get_solution example_globals stale_world (url_name add_mission)) = None
   \<and> fst (write_solution_to_file example_globals stale_world add_mission) = Inl IOError
   \<and> fs (snd (write_solution_to_file example_globals stale_world add_mission)) = fs stale_world
   \<and> file_events (log (snd (write_solution_to_file example_globals stale_world add_mission))) = []"
proof -
  have h: "fst (get_solution example_globals stale_world (url_name add_mission)) = None"
    by (simp add: run_defs example_defs)
  have l: "file_events (log stale_world) = []"
    by (simp add: run_defs example_defs)
  from h l write_refuses_empty_fetch [of example_globals stale_world add_mission]
  show ?thesis by simp
qed






section \<open>Folders\<close>
















section \<open>download\_section\<close>

lemma save_code_frame:
  assumes "save_code w filename code = (r, w')"
  shows "\<exists>f l. w' = w\<lparr>fs := f, log := l\<rparr>"
  using assms
proof (cases rule: save_code_cases)
  case (skip s)
  then have "w' = w\<lparr>fs := fs w, log := log w\<rparr>" by simp
  then show ?thesis by blast
next
  case is_dir
  then have "w' = w\<lparr>fs := fs w, log := log w\<rparr>" by simp
  then show ?thesis by blast
next
  case no_folder
  then have "w' = w\<lparr>fs := fs w, log := log w\<rparr>" by simp
  then show ?thesis by blast
qed blast+



lemma write_solution_frame:
  assumes "write_solution_to_file g w mission = (r, w')"
  shows "\<exists>f c l. w' = w\<lparr>fs := f, clock := c, log := l\<rparr>"
proof -
  obtain d w1 where run: "get_solution g w (url_name mission) = (d, w1)"
    by (cases "get_solution g w (url_name mission)")
  note f1 = get_solution_frame [OF run]
  have "w' = w1 \<or> (\<exists>fn code. save_code w1 fn code = (r, w'))"
    using assms unfolding write_solution_save run
    by (auto split: option.splits if_splits)
  then have "\<exists>f l. w' = w1\<lparr>fs := f, log := l\<rparr>"
  proof
    assume "w' = w1"
    then have "w' = w1\<lparr>fs := fs w1, log := log w1\<rparr>" by simp
    then show ?thesis by blast
  qed (auto dest: save_code_frame)
  then obtain f l where "w' = w1\<lparr>fs := f, log := l\<rparr>" by blast
  then have "w' = w\<lparr>fs := f, clock := clock w1, log := l\<rparr>"
    by (subst (asm) f1) simp
  then show ?thesis by blast
qed

lemma write_solution_fields:
  assumes "write_solution_to_file g w mission = (r, w')"
  shows "cwd w' = cwd w" "strftime_c w' = strftime_c w" "write_fault w' = write_fault w"
    "ace_line w' = ace_line w" "sections w' = sections w" "current_url w' = current_url w"
    "has_element w' = has_element w"
  using write_solution_frame [OF assms] by auto

















lemma pages_loaded_append [simp]: "pages_loaded (xs @ ys) = pages_loaded xs @ pages_loaded ys"
  by (simp add: pages_loaded_def)















lemma get_solution_same_fetch:
  assumes "ace_line w' = ace_line w"
  shows "fst (get_solution g w' mission) = fst (get_solution g w mission)"
proof -
  obtain r1 w1 where a: "get_solution g w' mission = (r1, w1)" by (cases "get_solution g w' mission")
  obtain r2 w2 where b: "get_solution g w mission = (r2, w2)" by (cases "get_solution g w mission")
  show ?thesis
    unfolding a b fst_conv get_solution_spec(1) [OF a] get_solution_spec(1) [OF b] assms ..
qed

lemma get_solution_clock:
  "get_solution g w mission = (r, w') \<Longrightarrow> clock w \<le> clock w'"
  by (simp add: get_solution_spec(3))

lemma save_code_clock:
  assumes "save_code w filename code = (r, w')"
  shows "clock w' = clock w"
  using save_code_frame [OF assms] by auto

lemma write_solution_clock:
  assumes "write_solution_to_file g w mission = (r, w')"
  shows "clock w \<le> clock w'"
proof -
  obtain d w1 where run: "get_solution g w (url_name mission) = (d, w1)"
    by (cases "get_solution g w (url_name mission)")
  have "w' = w1 \<or> (\<exists>fn code. save_code w1 fn code = (r, w'))"
    using assms unfolding write_solution_save run
    by (auto split: option.splits if_splits)
  then have "clock w' = clock w1" by (auto simp add: save_code_clock)
  with get_solution_clock [OF run] show ?thesis by simp
qed



lemma download_loop_clock:
  "download_loop g w section_name ms errors = (es, w') \<Longrightarrow> clock w \<le> clock w'"
proof (induction ms arbitrary: w errors)
  case Nil
  then show ?case by simp
next
  case (Cons m ms)
  obtain r w1 where step: "write_solution_to_file g w m = (r, w1)"
    by (cases "write_solution_to_file g w m")
  from Cons.prems(1) step obtain errors' where
    loop: "download_loop g w1 section_name ms errors' = (es, w')"
    by (cases r) auto
  from Cons.IH [OF loop] write_solution_clock [OF step] show ?case by simp
qed





section \<open>The whole run\<close>
















section \<open>Writing a mission twice\<close>

lemma universal_newlines_id: "CHR 0x0D \<notin> set s \<Longrightarrow> universal_newlines s = s"
  by (induction s rule: universal_newlines.induct) auto

lemma splitlines_from_line:
  "\<forall>c \<in> set l. \<not> is_linebreak c \<Longrightarrow>
     splitlines_from cur (l @ newline # rest) = (cur @ l) # splitlines_from [] rest"
proof (induction l arbitrary: cur)
  case Nil
  show ?case
    by (cases rest) (simp_all add: is_linebreak_def newline_def)
next
  case (Cons c l)
  then have c: "\<not> is_linebreak c" and l: "\<forall>c \<in> set l. \<not> is_linebreak c" by auto
  obtain d ds where "l @ newline # rest = d # ds" by (cases l) auto
  moreover have "c \<noteq> CHR 0x0D" using c by (auto simp add: is_linebreak_def)
  ultimately show ?case using c Cons.IH [OF l, of "cur @ [c]"] by simp
qed

lemma splitlines_file_text:
  "\<forall>l \<in> set code. \<forall>c \<in> set l. \<not> is_linebreak c \<Longrightarrow>
     splitlines (universal_newlines (file_text code)) = code"
proof -
  assume plain: "\<forall>l \<in> set code. \<forall>c \<in> set l. \<not> is_linebreak c"
  then have "CHR 0x0D \<notin> set (file_text code)"
    by (auto simp add: file_text_def is_linebreak_def newline_def)
  then have "universal_newlines (file_text code) = file_text code"
    by (rule universal_newlines_id)
  moreover from plain have "splitlines_from [] (file_text code) = code"
  proof (induction code)
    case Nil
    then show ?case by (simp add: file_text_def)
  next
    case (Cons l code)
    then have "splitlines_from [] (l @ newline # file_text code) = ([] @ l) # splitlines_from [] (file_text code)"
      by (intro splitlines_from_line) simp
    with Cons show ?case by (simp add: file_text_def)
  qed
  ultimately show ?thesis by (simp add: splitlines_def)
qed

text \<open>
  Writing a mission twice. If the first call returned normally, the second call finds the
  same lines, the formatted time is the same, and no line breaks within the lines, the
  title or the time, then the second call writes nothing.
\<close>

lemma second_write_skipped:
  assumes first: "write_solution_to_file g w mission = (Inr (), w')"
    and fetch: "fst (get_solution g w (url_name mission)) = Some downloaded"
    and second: "get_solution g w' (url_name mission) = (r2, w2)"
    and time: "strftime_c w (clock w2) = strftime_c w (clock w')"
    and plain: "\<forall>l \<in> set (header_line (title mission) (strftime_c w (clock w')) # downloaded).
                  \<forall>c \<in> set l. \<not> is_linebreak c"
  shows "write_solution_to_file g w' mission = (Inr (), w2)"
    and "fs w2 = fs w'" and "file_events (log w2) = file_events (log w')"
proof -
  obtain w1 where gs: "get_solution g w (url_name mission) = (Some downloaded, w1)"
    using fetch by (cases "get_solution g w (url_name mission)") auto
  have ne: "downloaded \<noteq> []"
    using first by (auto simp add: write_solution_save gs split: if_splits)
  let ?fn = "url_name mission @ ''.py''"
  let ?code = "header_line (title mission) (strftime_c w (clock w')) # downloaded"
  have sc: "save_code w1 ?fn (header_line (title mission) (strftime_c w (clock w1)) # downloaded)
              = (Inr (), w')"
    using write_solution_cases [OF gs ne] first by simp
  have c1: "clock w' = clock w1" by (rule save_code_clock [OF sc])
  note sc' = sc [folded c1]
  from sc' have rd: "\<exists>s. open_read w' ?fn = Inr s \<and> splitlines s = ?code"
  proof (cases rule: save_code_cases)
    case (skip s)
    then show ?thesis by auto
  next
    case written
    then have pne: "resolve w1 ?fn \<noteq> []" by (auto simp add: node_at_def)
    have "cwd w' = cwd w1" by (subst written(4)) simp
    then have res: "resolve w' ?fn = resolve w1 ?fn" by (simp add: resolve_def)
    have "fs w' (resolve w1 ?fn) = Some (File (file_text ?code))"
      by (subst written(4)) simp
    with pne res have "open_read w' ?fn = Inr (universal_newlines (file_text ?code))"
      by (simp add: open_read_def node_at_def)
    with splitlines_file_text [OF plain] show ?thesis by simp
  qed simp_all
  note f1 = write_solution_fields [OF first]
  have same: "fst (get_solution g w' (url_name mission)) = fst (get_solution g w (url_name mission))"
    by (rule get_solution_same_fetch [OF f1(4)])
  with second fetch have r2: "r2 = Some downloaded" by simp
  note f2 = get_solution_fields [OF second]
  have "save_code w2 ?fn (header_line (title mission) (strftime_c w' (clock w2)) # downloaded)
          = (Inr (), w2)"
    using rd by (auto simp add: save_code_def f2 f1 time)
  then show "write_solution_to_file g w' mission = (Inr (), w2)"
    using write_solution_cases [OF second [unfolded r2] ne] by simp
  show "fs w2 = fs w'" by (rule f2)
  show "file_events (log w2) = file_events (log w')"
    by (rule get_solution_file_events [OF second])
qed


end
